theory Spec2Isabelle
  imports Main "HOL-Library.Multiset"
begin

section \<open>Data model of satisfiability.py\<close>

text \<open>
  The values that \<open>unify\<close> receives are dynamically typed: a \<open>str\<close>, a \<open>Literal\<close>
  (a predicate or function name with a list of arguments) or a Python list of such values.
  Python's \<open>==\<close> on these values is structural and never equates values of different
  classes (\<open>Literal.__eq__\<close> answers False for a non-Literal), so it is HOL equality
  on \<open>val\<close>.
\<close>

datatype val = Str string | Lit string "val list" | Lst "val list"

text \<open>The class \<open>Literal\<close> itself, as the clauses hold it.\<close>

record literal =
  Predicate :: string
  Arguments :: "val list"

type_synonym clause = "literal list"


text \<open>
  The exceptions the code can raise. \<open>RecursionError\<close> stands for a recursion of
  \<open>unify\<close> deeper than the interpreter's limit, which the model takes as a parameter.
\<close>

datatype error = IndexError | TypeError | RecursionError

text \<open>
  What the variable \<open>theta\<close> can hold: \<open>None\<close>, \<open>False\<close> (returned by
  \<open>unify_var\<close> on an occurs-check violation) or a dictionary. The keys a dictionary
  receives from \<open>unify_var\<close> are variable names, hence strings.
\<close>

datatype theta = TNone | TFalse | Dict "string \<rightharpoonup> val"

text \<open>
  \<open>Literal.__hash__\<close> hashes the tuple of the name and the arguments; hashing a list raises
  TypeError. \<open>hashable\<close> tells whether \<open>hash(x)\<close> returns.
\<close>

fun hashable :: "val \<Rightarrow> bool" where
  "hashable (Str s) = True"
| "hashable (Lit p args) = list_all hashable args"
| "hashable (Lst xs) = False"

text \<open>\<open>x in theta\<close> followed by \<open>theta[x]\<close>, for a hashable \<open>x\<close>: only a string can be a key.\<close>

fun lookup :: "(string \<rightharpoonup> val) \<Rightarrow> val \<Rightarrow> val option" where
  "lookup m (Str s) = m s"
| "lookup m (Lit p args) = None"
| "lookup m (Lst xs) = None"

text \<open>\<open>x in VARIABLES\<close>: the list holds strings, so only a string can be found in it.\<close>

fun variable_of :: "string list \<Rightarrow> val \<Rightarrow> string option" where
  "variable_of VARIABLES (Str s) = (if s \<in> set VARIABLES then Some s else None)"
| "variable_of VARIABLES (Lit p args) = None"
| "variable_of VARIABLES (Lst xs) = None"

section \<open>Occurs check\<close>

fun occur_check :: "string \<Rightarrow> val \<Rightarrow> bool" where
  "occur_check var (Str s) = (var = s)"
| "occur_check var (Lit p args) = (if p = var then True else list_ex (occur_check var) args)"
| "occur_check var (Lst xs) = (if length xs > 1 then list_ex (occur_check var) xs else False)"

section \<open>Fresh variable names\<close>

text \<open>Python's \<open>str(i)\<close> for a natural number: its decimal digits.\<close>

definition digit :: "nat \<Rightarrow> char" where
  "digit d = ''0123456789'' ! d"

function str_nat :: "nat \<Rightarrow> string" where
  "str_nat n = (if n < 10 then [digit n] else str_nat (n div 10) @ [digit (n mod 10)])"
  by pat_completeness auto
termination
  by (relation "measure (\<lambda>n. n)") auto

declare str_nat.simps [simp del]

lemma digit_inj: "a < 10 \<Longrightarrow> b < 10 \<Longrightarrow> digit a = digit b \<Longrightarrow> a = b"
proof -
  assume a: "a < 10" and b: "b < 10" and e: "digit a = digit b"
  have d: "distinct ''0123456789''" by simp
  have "a < length ''0123456789''" "b < length ''0123456789''" using a b by simp_all
  with d e show "a = b" unfolding digit_def by (simp only: nth_eq_iff_index_eq)
qed

lemma str_nat_nonempty: "str_nat n \<noteq> []"
  by (subst str_nat.simps) simp

lemma str_nat_inj: "str_nat a = str_nat b \<Longrightarrow> a = b"
proof (induction a arbitrary: b rule: str_nat.induct)
  case (1 n)
  show ?case
  proof (cases "n < 10")
    case True
    have sn: "str_nat n = [digit n]" using True by (subst str_nat.simps) simp
    show ?thesis
    proof (cases "b < 10")
      case bs: True
      have "str_nat b = [digit b]" using bs by (subst str_nat.simps) simp
      with sn "1.prems" have "digit n = digit b" by simp
      with True bs show ?thesis by (rule digit_inj)
    next
      case bl: False
      have "str_nat b = str_nat (b div 10) @ [digit (b mod 10)]"
        using bl by (subst str_nat.simps) simp
      with sn "1.prems" have "str_nat (b div 10) = []" by simp
      with str_nat_nonempty show ?thesis by blast
    qed
  next
    case False
    have sn: "str_nat n = str_nat (n div 10) @ [digit (n mod 10)]"
      using False by (subst str_nat.simps) simp
    show ?thesis
    proof (cases "b < 10")
      case bs: True
      have "str_nat b = [digit b]" using bs by (subst str_nat.simps) simp
      with sn "1.prems" have "str_nat (n div 10) = []" by simp
      with str_nat_nonempty show ?thesis by blast
    next
      case bl: False
      have sb: "str_nat b = str_nat (b div 10) @ [digit (b mod 10)]"
        using bl by (subst str_nat.simps) simp
      from sn sb "1.prems" have e1: "str_nat (n div 10) = str_nat (b div 10)"
        and e2: "digit (n mod 10) = digit (b mod 10)" by simp_all
      from "1.IH" [OF False e1] have q: "n div 10 = b div 10" .
      have "n mod 10 = b mod 10" using e2 by (intro digit_inj) simp_all
      with q show ?thesis by (metis div_mult_mod_eq)
    qed
  qed
qed

lemma candidates_finite: "finite {j. c # str_nat j \<in> set VARIABLES}"
proof -
  have "inj (\<lambda>j. c # str_nat j)" by (rule injI) (simp add: str_nat_inj)
  then have "finite ((\<lambda>j. c # str_nat j) -` set VARIABLES)"
    by (intro finite_vimageI) simp_all
  then show ?thesis by (simp add: vimage_def)
qed

text \<open>
  The loop of \<open>unify_var\<close> that mints a fresh name, with \<open>c = x[0]\<close>:
  \<^verbatim>\<open>
  while new in VARIABLES:
      new = x[0] + str(i)
      i += 1
  \<close>
\<close>

function fresh_loop :: "char \<Rightarrow> string list \<Rightarrow> string \<Rightarrow> nat \<Rightarrow> string" where
  "fresh_loop c VARIABLES new i =
     (if new \<in> set VARIABLES then fresh_loop c VARIABLES (c # str_nat i) (i + 1) else new)"
  by pat_completeness auto
termination
proof (relation "measure (\<lambda>(c, VARIABLES, new, i).
    card {j. i \<le> j \<and> c # str_nat j \<in> set VARIABLES} + (if new \<in> set VARIABLES then 1 else 0))")
  show "wf (measure (\<lambda>(c, VARIABLES, new, i).
    card {j. i \<le> j \<and> c # str_nat j \<in> set VARIABLES} + (if new \<in> set VARIABLES then 1 else 0)))"
    by simp
next
  fix c :: char and VARIABLES :: "string list" and new :: string and i :: nat
  assume inV: "new \<in> set VARIABLES"
  let ?S = "\<lambda>k. {j. k \<le> j \<and> c # str_nat j \<in> set VARIABLES}"
  have fin: "finite (?S i)"
    by (rule finite_subset [OF _ candidates_finite [of c VARIABLES]]) auto
  have sub: "?S (i + 1) \<subseteq> ?S i" by auto
  have le: "card (?S (i + 1)) \<le> card (?S i)" by (rule card_mono [OF fin sub])
  have "card (?S (i + 1)) + (if c # str_nat i \<in> set VARIABLES then 1 else 0) < card (?S i) + 1"
  proof (cases "c # str_nat i \<in> set VARIABLES")
    case True
    then have "i \<in> ?S i" "i \<notin> ?S (i + 1)" by simp_all
    with sub have "?S (i + 1) \<subset> ?S i" by blast
    from psubset_card_mono [OF fin this] True show ?thesis by simp
  next
    case False
    with le show ?thesis by simp
  qed
  with inV show "((c, VARIABLES, c # str_nat i, i + 1), (c, VARIABLES, new, i))
      \<in> measure (\<lambda>(c, VARIABLES, new, i).
          card {j. i \<le> j \<and> c # str_nat j \<in> set VARIABLES} + (if new \<in> set VARIABLES then 1 else 0))"
    by simp
qed

declare fresh_loop.simps [simp del]

section \<open>Unification\<close>

text \<open>
  \<open>unify\<close> and \<open>unify_var\<close> call each other, read and extend the global list
  \<open>VARIABLES\<close>, and may recurse without end. The model passes \<open>VARIABLES\<close> in and out
  and takes the number of stack frames the interpreter still allows: every call uses one,
  and a call with none left raises RecursionError. The dictionary is mutated in place by
  the source; every caller goes on with the returned value only, so the model returns
  the new dictionary.
\<close>

type_synonym outcome = "error + theta \<times> string list"

fun unify :: "nat \<Rightarrow> val \<Rightarrow> val \<Rightarrow> theta \<Rightarrow> string list \<Rightarrow> outcome"
  and unify_var :: "nat \<Rightarrow> string \<Rightarrow> val \<Rightarrow> theta \<Rightarrow> string list \<Rightarrow> outcome" where
  "unify 0 x y theta VARIABLES = Inl RecursionError"
| "unify (Suc n) x y theta VARIABLES =
     (case theta of
        TNone \<Rightarrow> Inr (TNone, VARIABLES)
      | _ \<Rightarrow>
        if x = y then Inr (theta, VARIABLES)
        else case variable_of VARIABLES x of
          Some v \<Rightarrow> unify_var n v y theta VARIABLES
        | None \<Rightarrow>
          (case variable_of VARIABLES y of
             Some v \<Rightarrow> unify_var n v x theta VARIABLES
           | None \<Rightarrow>
             (case (x, y) of
                (Lit p xargs, Lit q yargs) \<Rightarrow>
                  (case unify n (Str p) (Str q) theta VARIABLES of
                     Inl e \<Rightarrow> Inl e
                   | Inr (new_theta, VARIABLES') \<Rightarrow>
                       unify n (Lst xargs) (Lst yargs) new_theta VARIABLES')
              | (Lst xs, Lst ys) \<Rightarrow>
                  (case xs of
                     [] \<Rightarrow> Inl IndexError
                   | x0 # xrest \<Rightarrow>
                     (case ys of
                        [] \<Rightarrow> Inl IndexError
                      | y0 # yrest \<Rightarrow>
                          (case unify n (Lst xrest) (Lst yrest) theta VARIABLES of
                             Inl e \<Rightarrow> Inl e
                           | Inr (theta', VARIABLES') \<Rightarrow> unify n x0 y0 theta' VARIABLES')))
              | _ \<Rightarrow> Inr (TNone, VARIABLES))))"
| "unify_var 0 var x theta VARIABLES = Inl RecursionError"
| "unify_var (Suc n) var x theta VARIABLES =
     (case theta of
        Dict m \<Rightarrow>
          (case m var of
             Some val \<Rightarrow> unify n val x theta VARIABLES
           | None \<Rightarrow>
             if \<not> hashable x then Inl TypeError
             else case lookup m x of
               Some val \<Rightarrow> unify n (Str var) val theta VARIABLES
             | None \<Rightarrow>
               if occur_check var x then Inr (TFalse, VARIABLES)
               else case variable_of VARIABLES x of
                 Some xv \<Rightarrow>
                   (if xv \<noteq> var then
                      (case xv of
                         [] \<Rightarrow> Inl IndexError
                       | c # _ \<Rightarrow>
                           let new = fresh_loop c VARIABLES (c # str_nat 0) 0
                           in Inr (Dict (m(var \<mapsto> Str new, xv \<mapsto> Str new)), VARIABLES @ [new]))
                    else Inr (Dict (m(var \<mapsto> x)), VARIABLES))
               | None \<Rightarrow> Inr (Dict (m(var \<mapsto> x)), VARIABLES))
      | _ \<Rightarrow> Inl TypeError)"

section \<open>Applying a substitution\<close>

text \<open>
  The loop of \<open>Literal.substitute\<close> over the arguments. \<open>arg in theta\<close> hashes
  \<open>arg\<close> and needs a container on its right: it raises TypeError for an unhashable
  argument and for a \<open>theta\<close> that is \<open>False\<close> or \<open>None\<close>. A bound value is
  appended as it is; a nested Literal is substituted recursively.
\<close>

fun substitute_args :: "theta \<Rightarrow> val list \<Rightarrow> error + val list" where
  "substitute_args theta [] = Inr []"
| "substitute_args theta (arg # rest) =
     (case theta of
        Dict m \<Rightarrow>
          if \<not> hashable arg then Inl TypeError
          else (case lookup m arg of
             Some v \<Rightarrow>
               (case substitute_args theta rest of
                  Inl e \<Rightarrow> Inl e
                | Inr new_args \<Rightarrow> Inr (v # new_args))
           | None \<Rightarrow>
               (case arg of
                  Lit p args \<Rightarrow>
                    (case substitute_args theta args of
                       Inl e \<Rightarrow> Inl e
                     | Inr args' \<Rightarrow>
                         (case substitute_args theta rest of
                            Inl e \<Rightarrow> Inl e
                          | Inr new_args \<Rightarrow> Inr (Lit p args' # new_args)))
                | _ \<Rightarrow>
                    (case substitute_args theta rest of
                       Inl e \<Rightarrow> Inl e
                     | Inr new_args \<Rightarrow> Inr (arg # new_args))))
      | _ \<Rightarrow> Inl TypeError)"

definition substitute :: "literal \<Rightarrow> theta \<Rightarrow> error + literal" where
  "substitute self theta =
     (case substitute_args theta (Arguments self) of
        Inl e \<Rightarrow> Inl e
      | Inr new_args \<Rightarrow> Inr \<lparr>Predicate = Predicate self, Arguments = new_args\<rparr>)"

section \<open>Resolution of two clauses\<close>

definition make_clause :: "literal \<Rightarrow> literal \<Rightarrow> clause \<Rightarrow> clause \<Rightarrow> clause" where
  "make_clause literal literal2 clause_one clause_two =
     (let new_one = filter (\<lambda>t. t \<noteq> literal) clause_one;
          new_two = filter (\<lambda>t. t \<noteq> literal2) clause_two
      in new_one @ new_two)"

text \<open>
  The complementary predicate name, as \<open>PL_Resolve\<close> and \<open>PL_Resolution\<close> compute it;
  \<open>pred[0]\<close> raises IndexError on an empty name.
\<close>

definition compliment_of :: "string \<Rightarrow> error + string" where
  "compliment_of pred =
     (case pred of
        [] \<Rightarrow> Inl IndexError
      | c # rest \<Rightarrow> if c = CHR ''!'' then Inr rest else Inr (CHR ''!'' # pred))"

text \<open>
  A Python set that is only tested for membership, united and compared is a list without
  repetitions here, in insertion order. \<open>resolvents.add(tuple(copy))\<close> hashes every
  literal of the tuple.
\<close>

definition hashable_literal :: "literal \<Rightarrow> bool" where
  "hashable_literal l = list_all hashable (Arguments l)"

definition set_add :: "clause \<Rightarrow> clause list \<Rightarrow> error + clause list" where
  "set_add c s =
     (if list_all hashable_literal c then Inr (if c \<in> set s then s else s @ [c])
      else Inl TypeError)"

fun substitute_all :: "clause \<Rightarrow> theta \<Rightarrow> error + clause" where
  "substitute_all [] theta = Inr []"
| "substitute_all (new_literal # rest) theta =
     (case substitute new_literal theta of
        Inl e \<Rightarrow> Inl e
      | Inr l \<Rightarrow>
          (case substitute_all rest theta of
             Inl e \<Rightarrow> Inl e
           | Inr copy \<Rightarrow> Inr (l # copy)))"

text \<open>The body of the two nested loops of \<open>PL_Resolve\<close>, for one pair of literals.\<close>

definition resolve_literals ::
  "nat \<Rightarrow> literal \<Rightarrow> string \<Rightarrow> literal \<Rightarrow> clause \<Rightarrow> clause \<Rightarrow>
   clause list \<times> string list \<Rightarrow> error + clause list \<times> string list" where
  "resolve_literals depth literal compliment literal2 clause_one clause_two st =
     (case st of (resolvents, VARIABLES) \<Rightarrow>
        if compliment = Predicate literal2 then
          if Arguments literal \<noteq> [] \<and> Arguments literal2 \<noteq> [] then
            (case unify depth (Lst (Arguments literal)) (Lst (Arguments literal2))
                    (Dict Map.empty) VARIABLES of
               Inl e \<Rightarrow> Inl e
             | Inr (theta, VARIABLES') \<Rightarrow>
                 (case theta of
                    TNone \<Rightarrow> Inr (resolvents, VARIABLES')
                  | _ \<Rightarrow>
                      (case substitute_all
                              (make_clause literal literal2 clause_one clause_two) theta of
                         Inl e \<Rightarrow> Inl e
                       | Inr copy \<Rightarrow>
                           (case set_add copy resolvents of
                              Inl e \<Rightarrow> Inl e
                            | Inr resolvents' \<Rightarrow> Inr (resolvents', VARIABLES')))))
          else
            (case set_add (make_clause literal literal2 clause_one clause_two) resolvents of
               Inl e \<Rightarrow> Inl e
             | Inr resolvents' \<Rightarrow> Inr (resolvents', VARIABLES))
        else Inr st)"

fun resolve_inner ::
  "nat \<Rightarrow> literal \<Rightarrow> string \<Rightarrow> clause \<Rightarrow> clause \<Rightarrow> clause \<Rightarrow>
   clause list \<times> string list \<Rightarrow> error + clause list \<times> string list" where
  "resolve_inner depth literal compliment clause_one clause_two [] st = Inr st"
| "resolve_inner depth literal compliment clause_one clause_two (literal2 # rest) st =
     (case resolve_literals depth literal compliment literal2 clause_one clause_two st of
        Inl e \<Rightarrow> Inl e
      | Inr st' \<Rightarrow> resolve_inner depth literal compliment clause_one clause_two rest st')"

fun resolve_outer ::
  "nat \<Rightarrow> clause \<Rightarrow> clause \<Rightarrow> clause \<Rightarrow>
   clause list \<times> string list \<Rightarrow> error + clause list \<times> string list" where
  "resolve_outer depth clause_one clause_two [] st = Inr st"
| "resolve_outer depth clause_one clause_two (literal # rest) st =
     (case compliment_of (Predicate literal) of
        Inl e \<Rightarrow> Inl e
      | Inr compliment \<Rightarrow>
          (case resolve_inner depth literal compliment clause_one clause_two clause_two st of
             Inl e \<Rightarrow> Inl e
           | Inr st' \<Rightarrow> resolve_outer depth clause_one clause_two rest st'))"

text \<open>
  \<open>PL_Resolve\<close> returns the set of resolvents; the model also returns \<open>VARIABLES\<close>
  as the calls of \<open>unify\<close> have left it.
\<close>

definition PL_Resolve ::
  "nat \<Rightarrow> clause \<Rightarrow> clause \<Rightarrow> string list \<Rightarrow> error + clause list \<times> string list" where
  "PL_Resolve depth clause_one clause_two VARIABLES =
     resolve_outer depth clause_one clause_two clause_one ([], VARIABLES)"

section \<open>The saturation loop\<close>

text \<open>
  The order in which Python runs through a set is not fixed by the language. The model
  keeps a set that is iterated as a list without repetitions and takes the order as a
  parameter \<open>order\<close>: every \<open>for x in s\<close> over a set \<open>s\<close> runs through
  \<open>order s\<close>. The theorems below that depend on what is iterated assume that
  \<open>order\<close> lists the same elements.
\<close>

type_synonym iteration = "clause list \<Rightarrow> clause list"

text \<open>The inner loop of \<open>get_pairs\<close>, over the literals of one clause of the KB.\<close>

fun get_pairs_literals ::
  "clause \<Rightarrow> string \<Rightarrow> clause \<Rightarrow> literal list \<Rightarrow> clause list \<Rightarrow> clause list" where
  "get_pairs_literals originalClause compliment clause [] matches = matches"
| "get_pairs_literals originalClause compliment clause (literal # rest) matches =
     (if Predicate literal = compliment \<and> clause \<notin> set matches \<and> clause \<noteq> originalClause
      then get_pairs_literals originalClause compliment clause rest (matches @ [clause])
      else get_pairs_literals originalClause compliment clause rest matches)"

fun get_pairs_clauses ::
  "clause \<Rightarrow> string \<Rightarrow> clause list \<Rightarrow> clause list \<Rightarrow> clause list" where
  "get_pairs_clauses originalClause compliment [] matches = matches"
| "get_pairs_clauses originalClause compliment (clause # rest) matches =
     get_pairs_clauses originalClause compliment rest
       (get_pairs_literals originalClause compliment clause clause matches)"

definition get_pairs :: "iteration \<Rightarrow> clause \<Rightarrow> string \<Rightarrow> clause list \<Rightarrow> clause list" where
  "get_pairs order originalClause compliment KB =
     get_pairs_clauses originalClause compliment (order KB) []"

text \<open>
  The loop of \<open>PL_Resolution\<close> over the literals of a clause: every turn assigns
  \<open>matched\<close> anew.
\<close>

fun matched_loop ::
  "iteration \<Rightarrow> clause \<Rightarrow> clause list \<Rightarrow> literal list \<Rightarrow> clause list \<Rightarrow> error + clause list" where
  "matched_loop order clause KB [] matched = Inr matched"
| "matched_loop order clause KB (literal # rest) matched =
     (case compliment_of (Predicate literal) of
        Inl e \<Rightarrow> Inl e
      | Inr compliment \<Rightarrow>
          matched_loop order clause KB rest (get_pairs order clause compliment KB))"

type_synonym pairs_state = "(clause \<times> clause) list \<times> (clause \<times> clause) set"

text \<open>The loop over \<open>matched\<close>, which fills \<open>pairs\<close> and \<open>processed\<close>.\<close>

fun match_loop :: "clause \<Rightarrow> clause list \<Rightarrow> pairs_state \<Rightarrow> pairs_state" where
  "match_loop clause [] st = st"
| "match_loop clause (match # rest) (pairs, processed) =
     (if (clause, match) \<notin> processed \<and> (match, clause) \<notin> processed
      then match_loop clause rest
             (pairs @ [(clause, match)], insert (match, clause) (insert (clause, match) processed))
      else match_loop clause rest (pairs, processed))"

text \<open>The first loop of a round, over the clauses of the KB.\<close>

fun clause_loop ::
  "iteration \<Rightarrow> clause list \<Rightarrow> clause list \<Rightarrow> pairs_state \<Rightarrow> error + pairs_state" where
  "clause_loop order KB [] st = Inr st"
| "clause_loop order KB (clause # rest) st =
     (case matched_loop order clause KB clause [] of
        Inl e \<Rightarrow> Inl e
      | Inr matched \<Rightarrow> clause_loop order KB rest (match_loop clause (order matched) st))"

text \<open>
  The second loop of a round, over \<open>pairs\<close>. \<open>Inr (Inl b)\<close> is \<open>return b\<close> from inside
  the loop; \<open>Inr (Inr (new, VARIABLES))\<close> is the loop running to its end.
\<close>

fun pair_loop ::
  "nat \<Rightarrow> (clause \<times> clause) list \<Rightarrow> clause list \<Rightarrow> string list \<Rightarrow>
   error + (bool + clause list \<times> string list)" where
  "pair_loop depth [] new VARIABLES = Inr (Inr (new, VARIABLES))"
| "pair_loop depth (pair # rest) new VARIABLES =
     (case PL_Resolve depth (fst pair) (snd pair) VARIABLES of
        Inl e \<Rightarrow> Inl e
      | Inr (resolvents, VARIABLES') \<Rightarrow>
          if [] \<in> set resolvents then Inr (Inl False)
          else pair_loop depth rest (new @ filter (\<lambda>c. c \<notin> set new) resolvents) VARIABLES')"

text \<open>
  The \<open>while True\<close> loop. It may run forever, so the model counts the rounds it may still
  start: \<open>None\<close> is a run that has not returned within them.
\<close>

fun saturate ::
  "nat \<Rightarrow> iteration \<Rightarrow> nat \<Rightarrow> clause list \<Rightarrow> (clause \<times> clause) set \<Rightarrow> string list \<Rightarrow>
   (error + bool) option" where
  "saturate 0 order depth KB processed VARIABLES = None"
| "saturate (Suc rounds) order depth KB processed VARIABLES =
     (case clause_loop order KB (order KB) ([], processed) of
        Inl e \<Rightarrow> Some (Inl e)
      | Inr (pairs, processed') \<Rightarrow>
          (case pair_loop depth pairs [] VARIABLES of
             Inl e \<Rightarrow> Some (Inl e)
           | Inr (Inl b) \<Rightarrow> Some (Inr b)
           | Inr (Inr (new, VARIABLES')) \<Rightarrow>
               if set new \<subseteq> set KB then Some (Inr True)
               else saturate rounds order depth (KB @ filter (\<lambda>c. c \<notin> set KB) new)
                      processed' VARIABLES'))"

definition PL_Resolution ::
  "nat \<Rightarrow> iteration \<Rightarrow> nat \<Rightarrow> clause list \<Rightarrow> string list \<Rightarrow> (error + bool) option" where
  "PL_Resolution rounds order depth KB VARIABLES = saturate rounds order depth KB {} VARIABLES"

text \<open>
  The pairs that the rounds of a run collect in \<open>pairs\<close>, one after the other: the pairs
  that are resolved are among them, each once per round that collects it.
\<close>

fun collected ::
  "nat \<Rightarrow> iteration \<Rightarrow> nat \<Rightarrow> clause list \<Rightarrow> (clause \<times> clause) set \<Rightarrow> string list \<Rightarrow>
   (clause \<times> clause) list" where
  "collected 0 order depth KB processed VARIABLES = []"
| "collected (Suc rounds) order depth KB processed VARIABLES =
     (case clause_loop order KB (order KB) ([], processed) of
        Inl e \<Rightarrow> []
      | Inr (pairs, processed') \<Rightarrow>
          (case pair_loop depth pairs [] VARIABLES of
             Inl e \<Rightarrow> pairs
           | Inr (Inl b) \<Rightarrow> pairs
           | Inr (Inr (new, VARIABLES')) \<Rightarrow>
               if set new \<subseteq> set KB then pairs
               else pairs @ collected rounds order depth (KB @ filter (\<lambda>c. c \<notin> set KB) new)
                              processed' VARIABLES'))"

section \<open>Notions used by the properties\<close>

text \<open>
  An iteration order lists the elements of the set it is given, each as often as the set
  holds it.
\<close>

definition iteration_order :: "iteration \<Rightarrow> bool" where
  "iteration_order order = (\<forall>xs. mset (order xs) = mset xs)"

text \<open>A literal without arguments.\<close>

definition atom :: "string \<Rightarrow> literal" where
  "atom p = \<lparr>Predicate = p, Arguments = []\<rparr>"

text \<open>A pair of clauses without its order, and the two orders of the pairs of a list.\<close>

definition unordered :: "clause \<times> clause \<Rightarrow> clause set" where
  "unordered p = {fst p, snd p}"

definition both_orders :: "(clause \<times> clause) list \<Rightarrow> (clause \<times> clause) set" where
  "both_orders ps = set ps \<union> (\<lambda>p. (snd p, fst p)) ` set ps"

definition fresh_pairs :: "(clause \<times> clause) list \<Rightarrow> (clause \<times> clause) set \<Rightarrow> bool" where
  "fresh_pairs ps processed =
     (distinct (map unordered ps) \<and> (\<forall>p\<in>set ps. p \<notin> processed \<and> (snd p, fst p) \<notin> processed))"

text \<open>
  The order of unification on two non-empty lists as the specification words it: the first
  elements first, then the tails under the substitution that the first elements gave. It
  is compared below with what \<open>unify\<close> does.
\<close>

definition unify_lists_head_first ::
  "nat \<Rightarrow> val \<Rightarrow> val list \<Rightarrow> val \<Rightarrow> val list \<Rightarrow> theta \<Rightarrow> string list \<Rightarrow> outcome" where
  "unify_lists_head_first n x0 xrest y0 yrest theta VARIABLES =
     (case unify n x0 y0 theta VARIABLES of
        Inl e \<Rightarrow> Inl e
      | Inr (theta', VARIABLES') \<Rightarrow> unify n (Lst xrest) (Lst yrest) theta' VARIABLES')"






section \<open>Iteration orders\<close>

lemma order_Nil: "iteration_order order \<Longrightarrow> order [] = []"
  by (metis iteration_order_def mset_zero_iff)

lemma order_single: "iteration_order order \<Longrightarrow> order [c] = [c]"
  by (metis iteration_order_def mset.simps(1) mset.simps(2) mset_single_iff_right)

lemma order_two: "iteration_order order \<Longrightarrow> order [a, b] = [a, b] \<or> order [a, b] = [b, a]"
proof -
  assume "iteration_order order"
  then have m: "mset (order [a, b]) = mset [a, b]" by (simp add: iteration_order_def)
  from mset_eq_length [OF m] have "length (order [a, b]) = Suc (Suc 0)" by simp
  then obtain u v where o: "order [a, b] = [u, v]"
    by (auto simp: length_Suc_conv)
  from mset_eq_setD [OF m] o have "{u, v} = {a, b}" by simp
  then have "(u = a \<and> v = b) \<or> (u = b \<and> v = a)" by (auto simp: doubleton_eq_iff)
  with o show ?thesis by auto
qed

lemma order_set: "iteration_order order \<Longrightarrow> set (order xs) = set xs"
  by (metis iteration_order_def mset_eq_setD)

section \<open>The processed record\<close>

lemma unordered_eq: "unordered p = unordered q \<Longrightarrow> q = p \<or> q = (snd p, fst p)"
  by (cases p; cases q) (auto simp: unordered_def doubleton_eq_iff)

lemma fresh_pairs_append:
  assumes a: "fresh_pairs ps processed"
    and b: "fresh_pairs qs (processed \<union> both_orders ps)"
  shows "fresh_pairs (ps @ qs) processed"
proof -
  have disj: "unordered p \<noteq> unordered q" if p: "p \<in> set ps" and q: "q \<in> set qs" for p q
  proof
    assume "unordered p = unordered q"
    then have "q = p \<or> q = (snd p, fst p)" by (rule unordered_eq)
    then have "q \<in> both_orders ps" using p by (auto simp: both_orders_def)
    with b q show False by (auto simp: fresh_pairs_def)
  qed
  have "set (map unordered ps) \<inter> set (map unordered qs) = {}"
    using disj by auto
  with a b show ?thesis by (auto simp: fresh_pairs_def)
qed

lemma match_loop_fresh:
  "match_loop clause ms (pairs, processed) = (pairs', processed') \<Longrightarrow>
   \<exists>new. pairs' = pairs @ new \<and> processed' = processed \<union> both_orders new \<and>
         fresh_pairs new processed \<and> (\<forall>p\<in>set new. fst p = clause \<and> snd p \<in> set ms)"
proof (induction ms arbitrary: pairs processed)
  case Nil
  then show ?case by (auto simp: both_orders_def fresh_pairs_def)
next
  case (Cons m ms)
  show ?case
  proof (cases "(clause, m) \<notin> processed \<and> (m, clause) \<notin> processed")
    case True
    let ?pr = "insert (m, clause) (insert (clause, m) processed)"
    from Cons.prems True
    have "match_loop clause ms (pairs @ [(clause, m)], ?pr) = (pairs', processed')" by simp
    from Cons.IH [OF this] obtain new where n: "pairs' = (pairs @ [(clause, m)]) @ new"
      "processed' = ?pr \<union> both_orders new" "fresh_pairs new ?pr"
      "\<forall>p\<in>set new. fst p = clause \<and> snd p \<in> set ms" by blast
    have one: "fresh_pairs [(clause, m)] processed" using True by (simp add: fresh_pairs_def)
    have pr: "?pr = processed \<union> both_orders [(clause, m)]" by (auto simp: both_orders_def)
    from fresh_pairs_append [OF one] n(3) pr have "fresh_pairs ((clause, m) # new) processed" by simp
    moreover have "processed' = processed \<union> both_orders ((clause, m) # new)"
      using n(2) by (auto simp: both_orders_def)
    ultimately show ?thesis using n(1,4) by (intro exI [of _ "(clause, m) # new"]) auto
  next
    case False
    with Cons.prems have "match_loop clause ms (pairs, processed) = (pairs', processed')" by auto
    from Cons.IH [OF this] show ?thesis by auto
  qed
qed

lemma clause_loop_fresh:
  "clause_loop order KB cs (pairs, processed) = Inr (pairs', processed') \<Longrightarrow>
   \<exists>new. pairs' = pairs @ new \<and> processed' = processed \<union> both_orders new \<and>
         fresh_pairs new processed"
proof (induction cs arbitrary: pairs processed)
  case Nil
  then show ?case by (auto simp: both_orders_def fresh_pairs_def)
next
  case (Cons c cs)
  from Cons.prems obtain matched where m: "matched_loop order c KB c [] = Inr matched"
    by (auto split: sum.splits)
  obtain p1 pr1 where ml: "match_loop c (order matched) (pairs, processed) = (p1, pr1)"
    by (cases "match_loop c (order matched) (pairs, processed)")
  from match_loop_fresh [OF ml] obtain n1 where n1: "p1 = pairs @ n1"
    "pr1 = processed \<union> both_orders n1" "fresh_pairs n1 processed" by blast
  from Cons.prems m ml have "clause_loop order KB cs (p1, pr1) = Inr (pairs', processed')" by simp
  from Cons.IH [OF this] obtain n2 where n2: "pairs' = p1 @ n2"
    "processed' = pr1 \<union> both_orders n2" "fresh_pairs n2 pr1" by blast
  from fresh_pairs_append [OF n1(3)] n2(3) n1(2) have "fresh_pairs (n1 @ n2) processed" by simp
  moreover have "processed' = processed \<union> both_orders (n1 @ n2)"
    using n1(2) n2(2) by (auto simp: both_orders_def)
  ultimately show ?case using n1(1) n2(1) by (intro exI [of _ "n1 @ n2"]) simp
qed

lemma collected_fresh: "fresh_pairs (collected rounds order depth KB processed V) processed"
proof (induction rounds arbitrary: KB processed V)
  case 0
  show ?case by (simp add: fresh_pairs_def)
next
  case (Suc rounds)
  show ?case
  proof (cases "clause_loop order KB (order KB) ([], processed)")
    case (Inl e)
    then show ?thesis by (simp add: fresh_pairs_def)
  next
    case (Inr r)
    obtain pairs processed' where r: "r = (pairs, processed')" by (cases r)
    from clause_loop_fresh [OF Inr [unfolded r]]
    have f: "fresh_pairs pairs processed" and p: "processed' = processed \<union> both_orders pairs"
      by auto
    have app: "fresh_pairs (pairs @ collected rounds order depth KB' processed' V') processed"
      for KB' V'
      using fresh_pairs_append [OF f] Suc.IH [of KB' processed' V'] p by simp
    have nil: "fresh_pairs (pairs @ []) processed" using f by simp
    show ?thesis using Inr r f app
      by (auto split: sum.splits prod.splits)
  qed
qed

text \<open>
  C8. Over a whole run of \<open>PL_Resolution\<close>, whatever the number of rounds and the
  order in which the sets are iterated, no unordered pair of clauses enters \<open>pairs\<close>
  twice: the pairs collected by all the rounds are pairwise different as unordered pairs.
  A pair is resolved only in the round that collects it, so no pair of clauses is resolved
  twice.
\<close>

theorem no_pair_collected_twice:
  "distinct (map unordered (collected rounds order depth KB {} VARIABLES))"
  using collected_fresh [of rounds order depth KB "{}" VARIABLES] by (simp add: fresh_pairs_def)

section \<open>No clause is paired with itself\<close>

lemma get_pairs_literals_not_self:
  "originalClause \<notin> set matches \<Longrightarrow>
   originalClause \<notin> set (get_pairs_literals originalClause compliment clause ls matches)"
proof (induction ls arbitrary: matches)
  case Nil
  then show ?case by simp
next
  case (Cons l ls)
  show ?case
  proof (cases "Predicate l = compliment \<and> clause \<notin> set matches \<and> clause \<noteq> originalClause")
    case True
    then have "originalClause \<noteq> clause" by blast
    with Cons.prems have "originalClause \<notin> set (matches @ [clause])" by simp
    from Cons.IH [OF this] True show ?thesis by simp
  next
    case False
    with Cons.IH [OF Cons.prems] show ?thesis by auto
  qed
qed

lemma get_pairs_clauses_not_self:
  "originalClause \<notin> set matches \<Longrightarrow>
   originalClause \<notin> set (get_pairs_clauses originalClause compliment cs matches)"
  by (induction cs arbitrary: matches) (simp_all add: get_pairs_literals_not_self)

lemma matched_loop_not_self:
  "matched_loop order clause KB ls matched = Inr r \<Longrightarrow> clause \<notin> set matched \<Longrightarrow>
   clause \<notin> set r"
proof (induction ls arbitrary: matched)
  case Nil
  then show ?case by simp
next
  case (Cons l ls)
  from Cons.prems(1) obtain compliment where c: "compliment_of (Predicate l) = Inr compliment"
    and m: "matched_loop order clause KB ls (get_pairs order clause compliment KB) = Inr r"
    by (auto split: sum.splits)
  have "clause \<notin> set (get_pairs order clause compliment KB)"
    by (simp add: get_pairs_def get_pairs_clauses_not_self)
  from Cons.IH [OF m this] show ?case .
qed

lemma clause_loop_no_self:
  assumes "iteration_order order"
  shows "clause_loop order KB cs (pairs, processed) = Inr (pairs', processed') \<Longrightarrow>
    \<forall>p\<in>set pairs. fst p \<noteq> snd p \<Longrightarrow> \<forall>p\<in>set pairs'. fst p \<noteq> snd p"
proof (induction cs arbitrary: pairs processed)
  case Nil
  then show ?case by simp
next
  case (Cons c cs)
  from Cons.prems(1) obtain matched where m: "matched_loop order c KB c [] = Inr matched"
    by (auto split: sum.splits)
  obtain p1 pr1 where ml: "match_loop c (order matched) (pairs, processed) = (p1, pr1)"
    by (cases "match_loop c (order matched) (pairs, processed)")
  from match_loop_fresh [OF ml] obtain new where n: "p1 = pairs @ new"
    "\<forall>p\<in>set new. fst p = c \<and> snd p \<in> set (order matched)" by blast
  have "c \<notin> set matched" using matched_loop_not_self [OF m] by simp
  then have "c \<notin> set (order matched)" by (simp add: order_set [OF assms])
  with n Cons.prems(2) have ok: "\<forall>p\<in>set p1. fst p \<noteq> snd p" by auto
  from Cons.prems(1) m ml have "clause_loop order KB cs (p1, pr1) = Inr (pairs', processed')" by simp
  from Cons.IH [OF this ok] show ?case .
qed

section \<open>Verdicts on small knowledge bases\<close>

text \<open>
  C10. On the empty knowledge base the first round collects no pair, \<open>new\<close> stays
  empty, and \<open>PL_Resolution\<close> returns True.
\<close>

theorem empty_KB_satisfiable:
  "iteration_order order \<Longrightarrow> PL_Resolution (Suc n) order depth [] VARIABLES = Some (Inr True)"
  by (simp add: PL_Resolution_def order_Nil)

theorem empty_KB_satisfiable_witness:
  "iteration_order (\<lambda>xs. xs) \<and> PL_Resolution (Suc 0) (\<lambda>xs. xs) 0 [] [] = Some (Inr True)"
proof -
  have h: "iteration_order (\<lambda>xs. xs)" by (simp add: iteration_order_def)
  from empty_KB_satisfiable [OF h, of 0 0 "[]"] h show ?thesis by simp
qed

text \<open>
  C9. On the knowledge base that holds the one clause \<open>(P, Q)\<close>, whatever the arguments of
  the two literals, the first round collects no pair and \<open>PL_Resolution\<close> returns True
  in that round. On every knowledge base, no pair that a round collects holds the same
  clause twice.
\<close>

theorem single_clause_satisfiable:
  assumes "iteration_order order"
  shows "PL_Resolution (Suc n) order depth
           [[\<lparr>Predicate = ''P'', Arguments = as\<rparr>, \<lparr>Predicate = ''Q'', Arguments = bs\<rparr>]] VARIABLES
         = Some (Inr True)
       \<and> clause_loop order [[\<lparr>Predicate = ''P'', Arguments = as\<rparr>, \<lparr>Predicate = ''Q'', Arguments = bs\<rparr>]]
           (order [[\<lparr>Predicate = ''P'', Arguments = as\<rparr>, \<lparr>Predicate = ''Q'', Arguments = bs\<rparr>]]) ([], {})
         = Inr ([], {})
       \<and> (\<forall>KB processed pairs processed'.
            clause_loop order KB (order KB) ([], processed) = Inr (pairs, processed') \<longrightarrow>
            (\<forall>p\<in>set pairs. fst p \<noteq> snd p))"
proof (intro conjI allI impI)
  show "PL_Resolution (Suc n) order depth
           [[\<lparr>Predicate = ''P'', Arguments = as\<rparr>, \<lparr>Predicate = ''Q'', Arguments = bs\<rparr>]] VARIABLES
         = Some (Inr True)"
    using assms by (simp add: PL_Resolution_def order_Nil order_single compliment_of_def get_pairs_def)
  show "clause_loop order [[\<lparr>Predicate = ''P'', Arguments = as\<rparr>, \<lparr>Predicate = ''Q'', Arguments = bs\<rparr>]]
           (order [[\<lparr>Predicate = ''P'', Arguments = as\<rparr>, \<lparr>Predicate = ''Q'', Arguments = bs\<rparr>]]) ([], {})
         = Inr ([], {})"
    using assms by (simp add: order_Nil order_single compliment_of_def get_pairs_def)
next
  fix KB processed pairs processed'
  assume "clause_loop order KB (order KB) ([], processed) = Inr (pairs, processed')"
  from clause_loop_no_self [OF assms this] show "\<forall>p\<in>set pairs. fst p \<noteq> snd p" by simp
qed

theorem single_clause_satisfiable_witness:
  "iteration_order (\<lambda>xs. xs)
   \<and> PL_Resolution (Suc 0) (\<lambda>xs. xs) 0 [[atom ''P'', atom ''Q'']] [] = Some (Inr True)
   \<and> clause_loop (\<lambda>xs. xs) [[atom ''Q'', atom ''P''], [atom ''!P'', atom ''R'']]
        [[atom ''Q'', atom ''P''], [atom ''!P'', atom ''R'']] ([], {})
     = Inr ([([atom ''Q'', atom ''P''], [atom ''!P'', atom ''R''])],
            {([atom ''!P'', atom ''R''], [atom ''Q'', atom ''P'']),
             ([atom ''Q'', atom ''P''], [atom ''!P'', atom ''R''])})
   \<and> [atom ''Q'', atom ''P''] \<noteq> [atom ''!P'', atom ''R'']"
proof -
  have h: "iteration_order (\<lambda>xs. xs)" by (simp add: iteration_order_def)
  have e: "clause_loop (\<lambda>xs. xs) [[atom ''Q'', atom ''P''], [atom ''!P'', atom ''R'']]
        [[atom ''Q'', atom ''P''], [atom ''!P'', atom ''R'']] ([], {})
     = Inr ([([atom ''Q'', atom ''P''], [atom ''!P'', atom ''R''])],
            {([atom ''!P'', atom ''R''], [atom ''Q'', atom ''P'']),
             ([atom ''Q'', atom ''P''], [atom ''!P'', atom ''R''])})"
    by (simp add: compliment_of_def get_pairs_def atom_def)
  from single_clause_satisfiable [OF h, of 0 0 "[]" "[]" "[]"] have
    v: "PL_Resolution (Suc 0) (\<lambda>xs. xs) 0 [[atom ''P'', atom ''Q'']] [] = Some (Inr True)"
    and s: "\<forall>KB processed pairs processed'.
            clause_loop (\<lambda>xs. xs) KB KB ([], processed) = Inr (pairs, processed') \<longrightarrow>
            (\<forall>p\<in>set pairs. fst p \<noteq> snd p)"
    by (simp_all add: atom_def)
  from s e have "[atom ''Q'', atom ''P''] \<noteq> [atom ''!P'', atom ''R'']" by fastforce
  with h v e show ?thesis by simp
qed

text \<open>
  C7. On the knowledge base of the two unit clauses \<open>(P)\<close> and \<open>(!P)\<close>, literals without
  arguments, \<open>PL_Resolution\<close> returns False in the first round, in whatever order the
  sets are iterated. The same holds for the two clauses as the reader of the input file
  builds them, each literal with the one argument \<open>''\<close>, as soon as \<open>unify\<close> may be
  called once.
\<close>

theorem complementary_units_unsatisfiable:
  assumes "iteration_order order"
  shows "PL_Resolution (Suc n) order depth [[atom ''P''], [atom ''!P'']] VARIABLES = Some (Inr False)
    \<and> PL_Resolution (Suc n) order (Suc depth)
        [[\<lparr>Predicate = ''P'', Arguments = [Str '''']\<rparr>], [\<lparr>Predicate = ''!P'', Arguments = [Str '''']\<rparr>]]
        VARIABLES = Some (Inr False)"
proof -
  let ?p = "[\<lparr>Predicate = ''P'', Arguments = []\<rparr>]"
  let ?q = "[\<lparr>Predicate = ''!P'', Arguments = []\<rparr>]"
  let ?a = "[\<lparr>Predicate = ''P'', Arguments = [Str '''']\<rparr>]"
  let ?b = "[\<lparr>Predicate = ''!P'', Arguments = [Str '''']\<rparr>]"
  note defs = PL_Resolution_def order_Nil order_single [OF assms] compliment_of_def get_pairs_def
        PL_Resolve_def resolve_literals_def make_clause_def set_add_def
  have 1: "PL_Resolution (Suc n) order depth [?p, ?q] VARIABLES = Some (Inr False)"
    if "order [?p, ?q] = ys" "ys = [?p, ?q] \<or> ys = [?q, ?p]" for ys
    using that(2)
  proof
    assume "ys = [?p, ?q]"
    with that(1) have o: "order [?p, ?q] = [?p, ?q]" by simp
    show ?thesis by (simp add: defs o)
  next
    assume "ys = [?q, ?p]"
    with that(1) have o: "order [?p, ?q] = [?q, ?p]" by simp
    show ?thesis by (simp add: defs o)
  qed
  have 2: "PL_Resolution (Suc n) order (Suc depth) [?a, ?b] VARIABLES = Some (Inr False)"
    if "order [?a, ?b] = ys" "ys = [?a, ?b] \<or> ys = [?b, ?a]" for ys
    using that(2)
  proof
    assume "ys = [?a, ?b]"
    with that(1) have o: "order [?a, ?b] = [?a, ?b]" by simp
    show ?thesis by (simp add: defs o substitute_def)
  next
    assume "ys = [?b, ?a]"
    with that(1) have o: "order [?a, ?b] = [?b, ?a]" by simp
    show ?thesis by (simp add: defs o substitute_def)
  qed
  from 1 [OF refl] order_two [OF assms, of ?p ?q] 2 [OF refl] order_two [OF assms, of ?a ?b]
  show ?thesis by (simp add: atom_def)
qed

theorem complementary_units_unsatisfiable_witness:
  "iteration_order (\<lambda>xs. xs)
   \<and> PL_Resolution (Suc 0) (\<lambda>xs. xs) 0 [[atom ''P''], [atom ''!P'']] [] = Some (Inr False)"
proof -
  have h: "iteration_order (\<lambda>xs. xs)" by (simp add: iteration_order_def)
  from complementary_units_unsatisfiable [OF h, of 0 0 "[]"] h show ?thesis by simp
qed


section \<open>Evaluation of the fresh-name loop\<close>

lemmas fresh_eval = fresh_loop.simps str_nat.simps digit_def

section \<open>Which pairs a round collects\<close>

lemma matched_loop_last:
  "matched_loop order clause KB (ls @ [l]) matched = Inr r \<Longrightarrow>
   compliment_of (Predicate l) = Inr c \<Longrightarrow> r = get_pairs order clause c KB"
  by (induction ls arbitrary: matched) (auto split: sum.splits)

text \<open>
  C2. The claim asks that a clause \<open>C\<close> be paired with every clause that holds the
  complement of any literal of \<open>C\<close>. The loop over the literals of \<open>C\<close> assigns
  \<open>matched\<close> anew at every turn, so only the matches of the last literal remain. For
  the knowledge base of \<open>(P, Q)\<close> and \<open>(!P, R)\<close> no pair is collected, although
  \<open>(!P, R)\<close> holds the complement of \<open>P\<close>: the run returns True after one round and the
  resolvent \<open>(Q, R)\<close>, which \<open>PL_Resolve\<close> yields for the two clauses, is never built.
\<close>

theorem only_last_literal_matched: 
  "clause_loop (\<lambda>xs. xs) [[atom ''P'', atom ''Q''], [atom ''!P'', atom ''R'']]
     [[atom ''P'', atom ''Q''], [atom ''!P'', atom ''R'']] ([], {}) = Inr ([], {})
   \<and> PL_Resolution (Suc 0) (\<lambda>xs. xs) 0 [[atom ''P'', atom ''Q''], [atom ''!P'', atom ''R'']] []
       = Some (Inr True)
   \<and> PL_Resolve 0 [atom ''P'', atom ''Q''] [atom ''!P'', atom ''R''] []
       = Inr ([[atom ''Q'', atom ''R'']], [])"
  by (simp add: PL_Resolution_def compliment_of_def get_pairs_def atom_def
        PL_Resolve_def resolve_literals_def make_clause_def set_add_def hashable_literal_def)

section \<open>Resolvents\<close>











section \<open>Failure of unification\<close>

lemma unify_unequal_lengths:
  "length xs \<noteq> length ys \<Longrightarrow> theta \<noteq> TNone \<Longrightarrow>
   unify (Suc (min (length xs) (length ys)) + k) (Lst xs) (Lst ys) theta VARIABLES = Inl IndexError"
proof (induction xs arbitrary: ys)
  case Nil
  then obtain y ys' where "ys = y # ys'" by (cases ys) auto
  with Nil show ?case by (cases theta) simp_all
next
  case (Cons x xs)
  show ?case
  proof (cases ys)
    case Nil
    with Cons.prems show ?thesis by (cases theta) simp_all
  next
    case (Cons y ys')
    with Cons.prems have l: "length xs \<noteq> length ys'" by simp
    from Cons.IH [OF l Cons.prems(2)]
    have ih: "unify (Suc (min (length xs) (length ys')) + k) (Lst xs) (Lst ys') theta VARIABLES
              = Inl IndexError" .
    have ne: "x # xs \<noteq> y # ys'" using l by auto
    show ?thesis using Cons.prems(2) ne ih unfolding Cons
      by (cases theta) simp_all
  qed
qed

text \<open>
  C5. The claim asks that argument lists of unequal length make \<open>unify\<close> return its
  failure value. The source descends into the tails until one list is empty and then
  evaluates \<open>x[0]\<close> or \<open>y[0]\<close> on it: \<open>unify(['a'], ['a', 'b'], {})\<close> raises IndexError,
  and so does \<open>PL_Resolve\<close> on the clauses \<open>(P(a))\<close> and \<open>(!P(a,b))\<close>.
\<close>

theorem arity_mismatch_raises:
  "unify (Suc (Suc n)) (Lst [Str ''a'']) (Lst [Str ''a'', Str ''b'']) (Dict Map.empty) VARIABLES
     = Inl IndexError
   \<and> PL_Resolve (Suc (Suc n)) [\<lparr>Predicate = ''P'', Arguments = [Str ''a'']\<rparr>]
        [\<lparr>Predicate = ''!P'', Arguments = [Str ''a'', Str ''b'']\<rparr>] VARIABLES = Inl IndexError"
proof -
  have u: "unify (Suc (Suc n)) (Lst [Str ''a'']) (Lst [Str ''a'', Str ''b'']) (Dict Map.empty) VARIABLES
     = Inl IndexError"
    using unify_unequal_lengths [of "[Str ''a'']" "[Str ''a'', Str ''b'']" "Dict Map.empty" n VARIABLES]
    by simp
  then show ?thesis
    by (simp add: PL_Resolve_def compliment_of_def resolve_literals_def)
qed

text \<open>
  C4. The claim asks for one failure value that \<open>unify\<close> passes on unchanged and that
  \<open>PL_Resolve\<close> recognises. An occurs-check violation returns \<open>False\<close>, the other
  failures return \<open>None\<close>; \<open>unify\<close> and \<open>PL_Resolve\<close> test for \<open>None\<close> only.
  With the variables \<open>x\<close> and \<open>y\<close>: \<open>unify(['x'], [f(x)], {})\<close> returns \<open>False\<close>;
  under \<open>False\<close> a later step returns \<open>None\<close> or raises TypeError; \<open>PL_Resolve\<close>
  takes \<open>False\<close> for a substitution, so that \<open>(P(x,x))\<close> and \<open>(!P(y,f(y)))\<close> resolve
  to the empty clause and \<open>PL_Resolution\<close> returns False, and with a further literal
  \<open>Q(x)\<close> in the first clause \<open>substitute\<close> raises TypeError.
\<close>

theorem occurs_failure_not_recognised:
  "unify 5 (Lst [Str ''x'']) (Lst [Lit ''f'' [Str ''x'']]) (Dict Map.empty) [''x'']
     = Inr (TFalse, [''x''])
   \<and> unify 5 (Lst [Str ''a'', Str ''x'']) (Lst [Str ''b'', Lit ''f'' [Str ''x'']]) (Dict Map.empty) [''x'']
     = Inr (TNone, [''x''])
   \<and> unify 5 (Lst [Str ''y'', Str ''x'']) (Lst [Str ''c'', Lit ''f'' [Str ''x'']]) (Dict Map.empty) [''x'', ''y'']
     = Inl TypeError
   \<and> PL_Resolve 9 [\<lparr>Predicate = ''P'', Arguments = [Str ''x'', Str ''x'']\<rparr>]
        [\<lparr>Predicate = ''!P'', Arguments = [Str ''y'', Lit ''f'' [Str ''y'']]\<rparr>] [''x'', ''y'']
     = Inr ([[]], [''x'', ''y''])
   \<and> PL_Resolution 1 (\<lambda>xs. xs) 9
        [[\<lparr>Predicate = ''P'', Arguments = [Str ''x'', Str ''x'']\<rparr>],
         [\<lparr>Predicate = ''!P'', Arguments = [Str ''y'', Lit ''f'' [Str ''y'']]\<rparr>]] [''x'', ''y'']
     = Some (Inr False)
   \<and> PL_Resolve 9 [\<lparr>Predicate = ''P'', Arguments = [Str ''x'', Str ''x'']\<rparr>, \<lparr>Predicate = ''Q'', Arguments = [Str ''x'']\<rparr>]
        [\<lparr>Predicate = ''!P'', Arguments = [Str ''y'', Lit ''f'' [Str ''y'']]\<rparr>] [''x'', ''y'']
     = Inl TypeError"
  by (simp add: numeral_nat PL_Resolution_def compliment_of_def get_pairs_def 
        PL_Resolve_def resolve_literals_def make_clause_def set_add_def hashable_literal_def substitute_def)

section \<open>Unification of argument lists\<close>

text \<open>
  C6, as stated, fails: on \<open>['x', 'y']\<close> and \<open>['y', 'a']\<close>, with the variables
  \<open>x\<close> and \<open>y\<close>, \<open>unify\<close> returns the substitution \<open>{y: a, x: a}\<close>, whereas
  unifying the first elements first mints the variable \<open>y0\<close> and returns
  \<open>{x: y0, y: y0, y0: a}\<close>.
\<close>

theorem heads_first_differs:
  "unify 6 (Lst [Str ''x'', Str ''y'']) (Lst [Str ''y'', Str ''a'']) (Dict Map.empty) [''x'', ''y'']
     = Inr (Dict [''y'' \<mapsto> Str ''a'', ''x'' \<mapsto> Str ''a''], [''x'', ''y''])
   \<and> unify_lists_head_first 5 (Str ''x'') [Str ''y''] (Str ''y'') [Str ''a''] (Dict Map.empty) [''x'', ''y'']
     = Inr (Dict [''x'' \<mapsto> Str ''y0'', ''y'' \<mapsto> Str ''y0'', ''y0'' \<mapsto> Str ''a''], [''x'', ''y'', ''y0''])
   \<and> unify 6 (Lst [Str ''x'', Str ''y'']) (Lst [Str ''y'', Str ''a'']) (Dict Map.empty) [''x'', ''y'']
     \<noteq> unify_lists_head_first 5 (Str ''x'') [Str ''y''] (Str ''y'') [Str ''a''] (Dict Map.empty) [''x'', ''y'']"
  by (simp add: numeral_nat unify_lists_head_first_def fresh_eval Let_def)

text \<open>
  C6, amended. On two empty lists \<open>unify\<close> returns \<open>theta\<close> unchanged. On two
  non-empty lists that differ, with a \<open>theta\<close> other than \<open>None\<close>, it unifies the
  tails first, under \<open>theta\<close>, and then the first elements under the substitution that
  the tails gave; an exception raised for the tails is raised for the lists.
\<close>

theorem list_unification_tails_first:
  "unify (Suc n) (Lst []) (Lst []) theta VARIABLES = Inr (theta, VARIABLES)
   \<and> (theta \<noteq> TNone \<longrightarrow> x0 # xrest \<noteq> y0 # yrest \<longrightarrow>
       unify (Suc n) (Lst (x0 # xrest)) (Lst (y0 # yrest)) theta VARIABLES
       = (case unify n (Lst xrest) (Lst yrest) theta VARIABLES of
            Inl e \<Rightarrow> Inl e
          | Inr (theta', VARIABLES') \<Rightarrow> unify n x0 y0 theta' VARIABLES'))"
  by (cases theta) simp_all

theorem list_unification_tails_first_witness:
  "Dict Map.empty \<noteq> TNone \<and> Str ''x'' # [Str ''y''] \<noteq> Str ''y'' # [Str ''a'']
   \<and> unify (Suc 5) (Lst (Str ''x'' # [Str ''y''])) (Lst (Str ''y'' # [Str ''a''])) (Dict Map.empty) [''x'', ''y'']
     = (case unify 5 (Lst [Str ''y'']) (Lst [Str ''a'']) (Dict Map.empty) [''x'', ''y''] of
            Inl e \<Rightarrow> Inl e
          | Inr (theta', VARIABLES') \<Rightarrow> unify 5 (Str ''x'') (Str ''y'') theta' VARIABLES')"
  using list_unification_tails_first [of 5 "Dict Map.empty" "[''x'', ''y'']" "Str ''x''" "[Str ''y'']" "Str ''y''" "[Str ''a'']"]
  by simp


section \<open>Soundness of unification\<close>










lemma unify_eq: "theta \<noteq> TNone \<Longrightarrow> unify (Suc n) x x theta V = Inr (theta, V)"
  by (cases theta) simp_all




















end
